theory Spec2Isabelle
  imports Main "HOL-Library.Word" "HOL-Library.Sublist"
begin

section \<open>Data model\<close>

text \<open>
  Errors of the collaborators (listing provider, geolocation reader, document store) are
  opaque values that the handlers pass on unchanged.
\<close>

datatype error = Error string

text \<open>
  Go's \<open>int\<close> and \<open>int64\<close> are 64-bit two's complement: \<open>sint\<close> reads the signed value,
  multiplication wraps.
\<close>

type_synonym go_int = "64 word"

text \<open>
  Modelled from the spec: \<open>lobbyapi.Server\<close> is declared in \<open>pkg/lobbyapi\<close>, which is
  not among the sources. The fields are the ones \<open>lobbyRepo2Resp\<close> and
  \<open>processLobbyServer\<close> read.
\<close>

record Server =
  RowId :: string
  SteamClanId :: string
  Address :: string
  Port :: int
  Host :: string
  Platform :: int
  Version :: int
  Name :: string
  GameMode :: string
  Intent :: string
  Season :: string
  Tags :: string
  MaxConnections :: int
  Connected :: int
  ModEnabled :: bool
  PvpEnabled :: bool
  HasPassword :: bool
  IsDedicated :: bool
  ClientHosted :: bool
  AllowNewPlayers :: bool
  ServerPaused :: bool
  FriendOnly :: bool
  ClanOnly :: bool

text \<open>
  \<open>repo.LobbyServer\<close> (lobby.go, lines 13-25). The embedded \<open>lobbyapi.Server\<close> is the
  field \<open>Server\<close>; \<open>CreatedAt\<close> is a Unix time in milliseconds.
\<close>

record LobbyServer =
  Region :: string
  Continent :: string
  Area :: string
  City :: string
  PlatformName :: string
  TagNames :: "string list"
  CreatedAt :: int
  Server :: Server

text \<open>\<open>types.PageResult\<close>: the total and one page of items.\<close>

record 'a PageResult =
  Total :: int
  List :: "'a list"

text \<open>
  Modelled from the spec: \<open>types.QueryLobbyServersOptions\<close> is declared in
  \<open>internal/types\<close>, which is not among the sources. The fields are the ones
  \<open>GetServersByPage\<close> reads; the three flags are tri-state integers (0 is "not given").
\<close>

record QueryLobbyServersOptions =
  Name :: string
  Address :: string
  Area :: string
  Intent :: string
  GameMode :: string
  PvpEnabled :: int
  HasPassword :: int
  ModEnabled :: int
  Tags :: string
  Page :: go_int
  Size :: go_int
  Sort :: string

text \<open>
  Modelled from the spec: \<open>types.QueryLobbyServersResp\<close> is declared in
  \<open>internal/types\<close>, which is not among the sources. The fields are the ones
  \<open>lobbyRepo2Resp\<close> fills.
\<close>

record QueryLobbyServersResp =
  RowId :: string
  SteamClanId :: string
  Address :: string
  Port :: int
  Host :: string
  Region :: string
  Continent :: string
  Area :: string
  City :: string
  PlatformName :: string
  Platform :: int
  Version :: int
  Name :: string
  GameMode :: string
  Intent :: string
  Season :: string
  Tags :: "string list"
  MaxPlayers :: int
  Online :: int
  Mod :: bool
  Pvp :: bool
  HasPassword :: bool
  IsDedicated :: bool
  ClientHosted :: bool
  AllowNewPlayers :: bool
  ServerPaused :: bool
  FriendOnly :: bool
  ClanOnly :: bool

text \<open>
  What \<open>processLobbyServer\<close> reads of the geolocation record: the continent code, the
  country's ISO code and the city's English name.
\<close>

record GeoCity =
  ContinentCode :: string
  CountryIsoCode :: string
  CityNameEn :: string

text \<open>
  The collaborators of the handler, none of them among the sources: the listing client
  (\<open>GetCapableRegions\<close>, \<open>GetLobbyServers\<close>, the constant \<open>ExplicitPlatforms\<close> and
  \<open>PlatformDisplayName\<close> of \<open>lobbyapi\<close>), the geolocation reader applied to the parsed
  address (\<open>geoip.City(net.ParseIP(address))\<close>), and the Go scheduler: \<open>schedule\<close> is the
  order in which the units of one fan-out finish, given the order in which they were
  launched.
\<close>

record env =
  GetCapableRegions :: "error + string list"
  GetLobbyServers :: "string \<Rightarrow> int \<Rightarrow> error + Server list"
  ExplicitPlatforms :: "int list"
  PlatformDisplayName :: "string \<Rightarrow> int \<Rightarrow> string"
  geoip_City :: "string \<Rightarrow> error + GeoCity"
  schedule :: "(string \<times> int) list \<Rightarrow> (string \<times> int) list"

section \<open>The document store\<close>

text \<open>
  The collection is reached through the qmgo driver, which is not part of the
  repository. It is modelled as the list of the stored documents in insertion order,
  each with the \<open>_id\<close> the driver gave it on insertion.
\<close>

type_synonym oid = nat
type_synonym stored = "oid \<times> LobbyServer"

record LobbyRepo =
  collection :: "stored list"
  next_oid :: oid

text \<open>BSON values, and the query conditions the handlers build (\<open>bson.M\<close> values).\<close>

datatype bson = BNull | BBool bool | BInt int | BStr string | BOid oid | BArr "bson list"

datatype cond = Eq bson | In "bson list" | Lte bson | Regex string string

text \<open>
  A \<open>bson.M\<close> is a Go map from field names to conditions: assigning to a key replaces
  what was stored under it. The model has no nil map: \<open>FindServers\<close> assigns into the
  filter it is given, and \<open>GetServersByPage\<close>, its caller, passes a map it has made.
\<close>

type_synonym bsonM = "(string \<times> cond) list"

definition bson_put :: "string \<Rightarrow> cond \<Rightarrow> bsonM \<Rightarrow> bsonM" where
  "bson_put k v m = (k, v) # filter (\<lambda>kv. fst kv \<noteq> k) m"

text \<open>
  What the driver leaves open: the regular-expression engine of the store is a
  parameter (pattern, options, subject).
\<close>

record driver =
  regex_match :: "string \<Rightarrow> string \<Rightarrow> string \<Rightarrow> bool"

text \<open>
  The BSON field of a stored document under a key. The keys are the \<open>bson\<close> tags of
  \<open>LobbyServer\<close> and the keys of the inlined \<open>lobbyapi.Server\<close> that the queries and
  the indexes of the repository name; under any other key the model sees no field.
  A nil \<open>TagNames\<close> is stored as null.
\<close>

definition field :: "stored \<Rightarrow> string \<Rightarrow> bson option" where
  "field sd k =
     (let d = snd sd; s = Server d in
      if k = ''_id'' then Some (BOid (fst sd))
      else if k = ''region'' then Some (BStr (LobbyServer.Region d))
      else if k = ''continent'' then Some (BStr (LobbyServer.Continent d))
      else if k = ''area'' then Some (BStr (LobbyServer.Area d))
      else if k = ''city'' then Some (BStr (LobbyServer.City d))
      else if k = ''platform_name'' then Some (BStr (LobbyServer.PlatformName d))
      else if k = ''tag_names'' then
        Some (if TagNames d = [] then BNull else BArr (map BStr (TagNames d)))
      else if k = ''created_at'' then Some (BInt (CreatedAt d))
      else if k = ''row_id'' then Some (BStr (Server.RowId s))
      else if k = ''name'' then Some (BStr (Server.Name s))
      else if k = ''address'' then Some (BStr (Server.Address s))
      else if k = ''intent'' then Some (BStr (Server.Intent s))
      else if k = ''game_mode'' then Some (BStr (Server.GameMode s))
      else if k = ''pvp_enabled'' then Some (BBool (Server.PvpEnabled s))
      else if k = ''has_password'' then Some (BBool (Server.HasPassword s))
      else if k = ''mod_enabled'' then Some (BBool (Server.ModEnabled s))
      else None)"

text \<open>
  One condition on one field, as the store evaluates it: equality and \<open>$in\<close> look into
  an array field, a missing field equals null, \<open>$lte\<close> compares numbers with numbers,
  \<open>$regex\<close> applies to strings.
\<close>

fun holds :: "driver \<Rightarrow> bson option \<Rightarrow> cond \<Rightarrow> bool" where
  "holds drv v (Eq x) =
     (case v of
        None \<Rightarrow> x = BNull
      | Some (BArr ys) \<Rightarrow> x = BArr ys \<or> x \<in> set ys
      | Some y \<Rightarrow> y = x)"
| "holds drv v (In xs) =
     (case v of
        None \<Rightarrow> BNull \<in> set xs
      | Some (BArr ys) \<Rightarrow> BArr ys \<in> set xs \<or> (\<exists>y \<in> set ys. y \<in> set xs)
      | Some y \<Rightarrow> y \<in> set xs)"
| "holds drv v (Lte x) =
     (case v of
        Some (BInt a) \<Rightarrow> (case x of BInt b \<Rightarrow> a \<le> b | _ \<Rightarrow> False)
      | _ \<Rightarrow> False)"
| "holds drv v (Regex p opts) =
     (case v of
        Some (BStr s) \<Rightarrow> regex_match drv p opts s
      | Some (BArr ys) \<Rightarrow>
          (\<exists>y \<in> set ys. case y of BStr s \<Rightarrow> regex_match drv p opts s | _ \<Rightarrow> False)
      | _ \<Rightarrow> False)"

text \<open>A document matches a \<open>bson.M\<close> when every entry holds (\<open>$match\<close>, \<open>Find\<close>).\<close>

definition matches :: "driver \<Rightarrow> bsonM \<Rightarrow> stored \<Rightarrow> bool" where
  "matches drv m sd = list_all (\<lambda>kc. holds drv (field sd (fst kc)) (snd kc)) m"

text \<open>
  Modelled from the spec: the aggregation stages run inside the store, whose code is
  not among the sources. \<open>$group\<close> makes one group per distinct key; the groups come in
  the order in which their keys first occur, and \<open>$first\<close> is taken from the first
  document of the group, both in insertion order (spec 4.3, steps 4 and 5).
  \<open>dedup_first\<close> keeps that first document of every group.
\<close>

fun dedup_first :: "('a \<Rightarrow> 'k) \<Rightarrow> 'a list \<Rightarrow> 'a list" where
  "dedup_first key [] = []"
| "dedup_first key (d # ds) = d # dedup_first key (filter (\<lambda>e. key e \<noteq> key d) ds)"

text \<open>\<open>{"$group": {"_id": "$created_at"}}\<close>: the group documents \<open>{_id: ts}\<close>.\<close>

definition group_created_at :: "stored list \<Rightarrow> int list" where
  "group_created_at ds = map (\<lambda>sd. CreatedAt (snd sd)) (dedup_first (\<lambda>sd. CreatedAt (snd sd)) ds)"

text \<open>
  \<open>{"$sort": {k: 1}}\<close> over group documents \<open>{_id: ts}\<close>, ascending. The only field of
  such a document is \<open>_id\<close>: under any other key every document has the same (missing)
  sort value and the order of the input stands.
\<close>

definition sort_stage :: "string \<Rightarrow> int list \<Rightarrow> int list" where
  "sort_stage k gs = (if k = ''_id'' then sort gs else gs)"

text \<open>
  \<open>Aggregate(...).One\<close>: decodes the first document of the pipeline's output into the
  target. When the pipeline yields no document the driver reports its error for "no
  documents in result". The value is \<open>Some\<close> of the document decoded; \<open>None\<close> would be
  a target left empty, which \<open>One\<close> never returns with.
\<close>

definition Aggregate_One :: "driver \<Rightarrow> 'a list \<Rightarrow> error + 'a option" where
  "Aggregate_One drv out =
     (case out of
        [] \<Rightarrow> Inl (Error ''mongo: no documents in result'')
      | g # _ \<Rightarrow> Inr (Some g))"

text \<open>
  \<open>Find(filter).EstimatedCount()\<close>: the driver's estimated document count. It reads
  the size of the collection from its metadata and takes no filter: the filter of the
  query it is called on plays no part.
\<close>

definition EstimatedCount :: "stored list \<Rightarrow> bsonM \<Rightarrow> error + int" where
  "EstimatedCount c m = Inr (int (length c))"

text \<open>\<open>{"$match": filter}\<close>.\<close>

definition match_stage :: "driver \<Rightarrow> bsonM \<Rightarrow> stored list \<Rightarrow> stored list" where
  "match_stage drv m ds = filter (matches drv m) ds"

text \<open>
  \<open>{"$group": {"_id": "$row_id", "object_id": {"$first": "$_id"}}}\<close>: the group
  documents as pairs (\<open>_id\<close>, \<open>object_id\<close>).
\<close>

definition group_row_id :: "stored list \<Rightarrow> (string \<times> oid) list" where
  "group_row_id ds =
     map (\<lambda>sd. (Server.RowId (Server (snd sd)), fst sd)) (dedup_first (\<lambda>sd. Server.RowId (Server (snd sd))) ds)"

text \<open>\<open>$skip\<close> refuses a negative count, \<open>$limit\<close> a count that is not positive.\<close>

definition skip_stage :: "go_int \<Rightarrow> 'a list \<Rightarrow> error + 'a list" where
  "skip_stage n xs =
     (if sint n < 0 then Inl (Error ''$skip: negative'') else Inr (drop (nat (sint n)) xs))"

definition limit_stage :: "go_int \<Rightarrow> 'a list \<Rightarrow> error + 'a list" where
  "limit_stage n xs =
     (if sint n \<le> 0 then Inl (Error ''$limit: not positive'') else Inr (take (nat (sint n)) xs))"

text \<open>
  \<open>Find(filter).All\<close>: the matching documents in the order of the collection, decoded
  into \<open>LobbyServer\<close> values (the \<open>_id\<close> is not a field of the struct). The slice that
  \<open>FindServers\<close> hands over as the operand of \<open>$in\<close> is nil when it has no element; the
  driver encodes a nil slice as null, and the store refuses \<open>$in\<close> with an operand that
  is not an array.
\<close>

definition Find_All :: "driver \<Rightarrow> stored list \<Rightarrow> bsonM \<Rightarrow> error + LobbyServer list" where
  "Find_All drv c m =
     (if list_ex (\<lambda>kc. snd kc = In []) m then Inl (Error ''$in needs an array'')
      else Inr (map snd (filter (matches drv m) c)))"

section \<open>The repository (lobby.go)\<close>

text \<open>
  The first query of \<open>FindServers\<close> (lines 99-113): group the stored \<open>created_at\<close>
  values, sort the groups by the key \<open>created\<close>, take one.
\<close>

definition lastTs :: "driver \<Rightarrow> LobbyRepo \<Rightarrow> error + int option" where
  "lastTs drv l = Aggregate_One drv (sort_stage ''created'' (group_created_at (collection l)))"

text \<open>
  The second pipeline of \<open>FindServers\<close> (lines 131-150): match, group by \<open>row_id\<close>,
  skip, limit; the \<open>object_id\<close>s of the output, collected into a slice that stays nil
  when the pipeline yields no group.
\<close>

definition page_ids :: "driver \<Rightarrow> LobbyRepo \<Rightarrow> bsonM \<Rightarrow> go_int \<Rightarrow> go_int \<Rightarrow> error + oid list" where
  "page_ids drv l m page sz =
     (case skip_stage ((page - 1) * sz) (group_row_id (match_stage drv m (collection l))) of
        Inl err \<Rightarrow> Inl err
      | Inr skipped \<Rightarrow>
          (case limit_stage sz skipped of
             Inl err \<Rightarrow> Inl err
           | Inr objs \<Rightarrow> Inr (map snd objs)))"

text \<open>\<open>FindServers\<close> (lines 85-158).\<close>

definition FindServers ::
  "driver \<Rightarrow> LobbyRepo \<Rightarrow> go_int \<Rightarrow> go_int \<Rightarrow> string \<Rightarrow> bsonM \<Rightarrow> error + LobbyServer PageResult" where
  "FindServers drv l page0 size0 sort0 filter0 =
     (let page = (if sint page0 \<le> 0 then 1 else page0);
          size = (if sint size0 \<le> 0 then 10 else size0);
          sort = (if sort0 = [] then ''name'' else sort0);
          result = \<lparr>Total = 0, List = []\<rparr>
      in case lastTs drv l of
           Inl err \<Rightarrow> Inl err
         | Inr None \<Rightarrow> Inr result
         | Inr (Some ts) \<Rightarrow>
             (let flt = bson_put ''created_at'' (Eq (BInt ts)) filter0 in
              case EstimatedCount (collection l) [(''created_at'', Eq (BInt ts))] of
                Inl err \<Rightarrow> Inl err
              | Inr count \<Rightarrow>
                  (case page_ids drv l flt page size of
                     Inl err \<Rightarrow> Inl err
                   | Inr ids \<Rightarrow>
                       (case Find_All drv (collection l) [(''_id'', In (map BOid ids))] of
                          Inl err \<Rightarrow> Inl err
                        | Inr list \<Rightarrow> Inr (result\<lparr>Total := count, List := list\<rparr>)))))"

text \<open>
  \<open>RemoveAll(filter)\<close>: deletes every matching document; the collection left and the
  number of documents deleted.
\<close>

definition RemoveAll :: "driver \<Rightarrow> stored list \<Rightarrow> bsonM \<Rightarrow> error + stored list \<times> int" where
  "RemoveAll drv c m =
     Inr (filter (\<lambda>sd. \<not> matches drv m sd) c, int (length (filter (matches drv m) c)))"

text \<open>\<open>RemoveServers\<close> (lines 61-73).\<close>

definition RemoveServers :: "driver \<Rightarrow> LobbyRepo \<Rightarrow> bsonM \<Rightarrow> LobbyRepo \<times> (error + int \<times> int)" where
  "RemoveServers drv l m =
     (case RemoveAll drv (collection l) m of
        Inl err \<Rightarrow> (l, Inl err)
      | Inr (c, deletedCount) \<Rightarrow>
          (let l' = l\<lparr>collection := c\<rparr> in
           case EstimatedCount (collection l') [] of
             Inl err \<Rightarrow> (l', Inl err)
           | Inr estimatedCount \<Rightarrow> (l', Inr (deletedCount, estimatedCount))))"

text \<open>
  \<open>InsertMany\<close>: appends the documents in the order of the slice, each under a fresh
  \<open>_id\<close>, and returns the ids. The driver refuses an empty slice.
\<close>

definition InsertMany :: "LobbyRepo \<Rightarrow> LobbyServer list \<Rightarrow> LobbyRepo \<times> (error + oid list)" where
  "InsertMany l docs =
     (if docs = [] then (l, Inl (Error ''must provide at least one element in input slice''))
      else
        (let ids = [next_oid l ..< next_oid l + length docs] in
         (l\<lparr>collection := collection l @ zip ids docs, next_oid := next_oid l + length docs\<rparr>,
          Inr ids)))"

text \<open>\<open>InsertManyServers\<close> (lines 75-82).\<close>

definition InsertManyServers :: "LobbyRepo \<Rightarrow> LobbyServer list \<Rightarrow> LobbyRepo \<times> (error + int)" where
  "InsertManyServers l servers =
     (case InsertMany l servers of
        (l', Inl err) \<Rightarrow> (l', Inl err)
      | (l', Inr insertedIDs) \<Rightarrow> (l', Inr (int (length insertedIDs))))"

section \<open>The handler\<close>

text \<open>\<open>strings.Split(s, sep)\<close> for a one-character separator.\<close>

fun Split :: "string \<Rightarrow> char \<Rightarrow> string list" where
  "Split [] sep = [[]]"
| "Split (c # cs) sep =
     (if c = sep then [] # Split cs sep
      else (case Split cs sep of [] \<Rightarrow> [[c]] | w # ws \<Rightarrow> (c # w) # ws))"

text \<open>The query that \<open>GetServersByPage\<close> builds from its options (lines 104-146).\<close>

definition queryM :: "QueryLobbyServersOptions \<Rightarrow> bsonM" where
  "queryM options =
     (let m = [];
          m = (if QueryLobbyServersOptions.Name options \<noteq> []
               then bson_put ''name'' (Regex (QueryLobbyServersOptions.Name options) ''i'') m else m);
          m = (if QueryLobbyServersOptions.Address options \<noteq> []
               then bson_put ''address'' (Eq (BStr (QueryLobbyServersOptions.Address options))) m else m);
          m = (if QueryLobbyServersOptions.Area options \<noteq> []
               then bson_put ''area'' (Eq (BStr (QueryLobbyServersOptions.Area options))) m else m);
          m = (if QueryLobbyServersOptions.Intent options \<noteq> []
               then bson_put ''intent'' (Eq (BStr (QueryLobbyServersOptions.Intent options))) m else m);
          m = (if QueryLobbyServersOptions.GameMode options \<noteq> []
               then bson_put ''game_mode'' (Eq (BStr (QueryLobbyServersOptions.GameMode options))) m else m);
          m = (if QueryLobbyServersOptions.PvpEnabled options \<noteq> 0
               then bson_put ''pvp_enabled'' (Eq (BBool (QueryLobbyServersOptions.PvpEnabled options > 0))) m
               else m);
          m = (if QueryLobbyServersOptions.HasPassword options \<noteq> 0
               then bson_put ''has_password'' (Eq (BBool (QueryLobbyServersOptions.PvpEnabled options > 0))) m
               else m);
          m = (if QueryLobbyServersOptions.ModEnabled options \<noteq> 0
               then bson_put ''mod_enabled'' (Eq (BBool (QueryLobbyServersOptions.ModEnabled options > 0))) m
               else m);
          tags = Split (QueryLobbyServersOptions.Tags options) CHR '','';
          m = (if QueryLobbyServersOptions.Tags options \<noteq> [] \<and> length tags > 0
               then bson_put ''tag_names'' (In (map BStr tags)) m else m)
      in m)"

text \<open>\<open>lobbyRepo2Resp\<close> (lines 272-308).\<close>

definition lobbyRepo2Resp :: "LobbyServer list \<Rightarrow> QueryLobbyServersResp list" where
  "lobbyRepo2Resp servers =
     map (\<lambda>server.
       \<lparr>RowId = Server.RowId (Server server),
        SteamClanId = Server.SteamClanId (Server server),
        Address = Server.Address (Server server),
        Port = Server.Port (Server server),
        Host = Server.Host (Server server),
        Region = LobbyServer.Region server,
        Continent = LobbyServer.Continent server,
        Area = LobbyServer.Area server,
        City = LobbyServer.City server,
        PlatformName = LobbyServer.PlatformName server,
        Platform = Server.Platform (Server server),
        Version = Server.Version (Server server),
        Name = Server.Name (Server server),
        GameMode = Server.GameMode (Server server),
        Intent = Server.Intent (Server server),
        Season = Server.Season (Server server),
        Tags = TagNames server,
        MaxPlayers = MaxConnections (Server server),
        Online = Connected (Server server),
        Mod = Server.ModEnabled (Server server),
        Pvp = Server.PvpEnabled (Server server),
        HasPassword = Server.HasPassword (Server server),
        IsDedicated = Server.IsDedicated (Server server),
        ClientHosted = Server.ClientHosted (Server server),
        AllowNewPlayers = Server.AllowNewPlayers (Server server),
        ServerPaused = Server.ServerPaused (Server server),
        FriendOnly = Server.FriendOnly (Server server),
        ClanOnly = Server.ClanOnly (Server server)\<rparr>) servers"

text \<open>\<open>GetServersByPage\<close> (lines 103-158).\<close>

definition GetServersByPage ::
  "driver \<Rightarrow> LobbyRepo \<Rightarrow> QueryLobbyServersOptions \<Rightarrow> error + QueryLobbyServersResp PageResult" where
  "GetServersByPage drv l options =
     (case FindServers drv l (Page options) (Size options) (Sort options) (queryM options) of
        Inl err \<Rightarrow> Inl err
      | Inr result \<Rightarrow> Inr \<lparr>Total = Total result, List = lobbyRepo2Resp (List result)\<rparr>)"

text \<open>
  \<open>processLobbyServer\<close> (lines 310-338): the loop stops at the first address the
  geolocation reader fails on and then returns no list.
\<close>

fun processLobbyServer :: "env \<Rightarrow> Server list \<Rightarrow> string \<Rightarrow> int \<Rightarrow> error + LobbyServer list" where
  "processLobbyServer e [] region ts = Inr []"
| "processLobbyServer e (server # servers) region ts =
     (let s = \<lparr>LobbyServer.Region = region, Continent = [], Area = [], City = [],
               PlatformName = [], TagNames = [], CreatedAt = ts, Server = server\<rparr>;
          s = (if Server.Tags server \<noteq> [] then s\<lparr>TagNames := Split (Server.Tags server) CHR '',''\<rparr>
               else s)
      in case geoip_City e (Server.Address server) of
           Inl err \<Rightarrow> Inl err
         | Inr city \<Rightarrow>
             (let s = s\<lparr>LobbyServer.Continent := ContinentCode city,
                        LobbyServer.Area := CountryIsoCode city,
                        LobbyServer.City := CityNameEn city\<rparr>;
                  s = s\<lparr>LobbyServer.PlatformName :=
                          PlatformDisplayName e (LobbyServer.Region s) (Server.Platform server)\<rparr>
              in case processLobbyServer e servers region ts of
                   Inl err \<Rightarrow> Inl err
                 | Inr ans \<Rightarrow> Inr (s # ans)))"

text \<open>
  Times are nanoseconds since the Unix epoch; \<open>UnixMilli\<close> rounds down to milliseconds.
\<close>

definition UnixMilli :: "int \<Rightarrow> int" where
  "UnixMilli t = t div 1000000"

text \<open>
  One unit of the fan-out (the function literal at lines 208-231): its error, or the
  records it appends to the shared slice. The unit works on the region and the platform
  of its own iteration.
\<close>

definition unit_of_work :: "env \<Rightarrow> int \<Rightarrow> string \<times> int \<Rightarrow> error + LobbyServer list" where
  "unit_of_work e ts rp =
     (case GetLobbyServers e (fst rp) (snd rp) of
        Inl err \<Rightarrow> Inl err
      | Inr lobbyServers \<Rightarrow>
          if lobbyServers = [] then Inr []
          else processLobbyServer e lobbyServers (fst rp) ts)"

text \<open>
  The \<open>errgroup\<close>: every unit runs to its end (the group's context is dropped at line
  201, so nothing cancels a unit); the group keeps the first error it is handed, and the
  units that succeed append their records under the mutex. The state is the shared slice
  and the error kept so far; the outcomes come in the order in which the units finish.
\<close>

fun errgroup_run :: "(error + 'a list) list \<Rightarrow> 'a list \<times> error option \<Rightarrow> 'a list \<times> error option" where
  "errgroup_run [] st = st"
| "errgroup_run (Inl err # rs) (servers, kept) =
     errgroup_run rs (servers, (if kept = None then Some err else kept))"
| "errgroup_run (Inr processList # rs) (servers, kept) =
     errgroup_run rs (servers @ processList, kept)"

text \<open>
  The units of one fan-out in the order of their launch: the loop nest at lines 206-207,
  regions outside, platforms inside.

  \<open>GetAllServersFromLobby\<close> (lines 187-241), at the clock reading \<open>now\<close>. The result is
  \<open>None\<close> when the call never returns: with the limit 0 the group admits no goroutine
  and the first \<open>group.Go\<close> blocks for ever. A negative limit is no limit.
\<close>

definition fanout :: "env \<Rightarrow> string list \<Rightarrow> (string \<times> int) list" where
  "fanout e regions =
     concat (map (\<lambda>region. map (\<lambda>platform. (region, platform)) (ExplicitPlatforms e)) regions)"

definition GetAllServersFromLobby :: "env \<Rightarrow> int \<Rightarrow> go_int \<Rightarrow> (error + LobbyServer list) option" where
  "GetAllServersFromLobby e now limit =
     (case GetCapableRegions e of
        Inl err \<Rightarrow> Some (Inl err)
      | Inr regions \<Rightarrow>
          (let ts = UnixMilli now;
               units = fanout e regions
           in if limit = 0 \<and> units \<noteq> [] then None
              else
                (case errgroup_run (map (unit_of_work e ts) (schedule e units)) ([], None) of
                   (servers, Some err) \<Rightarrow> Some (Inl err)
                 | (servers, None) \<Rightarrow> Some (Inr servers))))"

text \<open>
  \<open>ClearExpiredServers\<close> (lines 243-256), at the clock reading \<open>now\<close>; \<open>ttl\<close> is a
  \<open>time.Duration\<close>, a 64-bit count of nanoseconds, and its negation wraps.
\<close>

definition ClearExpiredServers ::
  "driver \<Rightarrow> LobbyRepo \<Rightarrow> int \<Rightarrow> go_int \<Rightarrow> LobbyRepo \<times> (error + int \<times> int)" where
  "ClearExpiredServers drv l now ttl =
     (let expiredTs = UnixMilli (now + sint (- ttl));
          flt = [(''created_at'', Lte (BInt expiredTs))]
      in case RemoveServers drv l flt of
           (l', Inl err) \<Rightarrow> (l', Inl err)
         | (l', Inr (deleted, count)) \<Rightarrow> (l', Inr (deleted, count)))"

text \<open>
  \<open>SyncLocalServers\<close> (lines 258-270): the repository after the call, the number of
  records stored and the error, if any.
\<close>

definition SyncLocalServers ::
  "env \<Rightarrow> LobbyRepo \<Rightarrow> int \<Rightarrow> go_int \<Rightarrow> (LobbyRepo \<times> int \<times> error option) option" where
  "SyncLocalServers e l now limit =
     (case GetAllServersFromLobby e now limit of
        None \<Rightarrow> None
      | Some (Inl err) \<Rightarrow> Some (l, 0, Some err)
      | Some (Inr servers) \<Rightarrow>
          (case InsertManyServers l servers of
             (l', Inl err) \<Rightarrow> Some (l', 0, Some err)
           | (l', Inr inserted) \<Rightarrow> Some (l', inserted, None)))"

section \<open>What the claims speak of\<close>

text \<open>
  The invariant of the collection: the \<open>_id\<close>s are pairwise different and below the
  next one the driver hands out.
\<close>

definition wf_repo :: "LobbyRepo \<Rightarrow> bool" where
  "wf_repo l =
     (distinct (map fst (collection l)) \<and> list_all (\<lambda>sd. fst sd < next_oid l) (collection l))"

text \<open>
  The documents of the snapshot \<open>ts\<close> that satisfy the caller's filter, in insertion
  order. An entry of the caller's filter under \<open>created_at\<close> does not count: line 122
  overwrites it.
\<close>

definition snapshot :: "driver \<Rightarrow> LobbyRepo \<Rightarrow> int \<Rightarrow> bsonM \<Rightarrow> LobbyServer list" where
  "snapshot drv l ts m =
     map snd
       (filter (\<lambda>sd. CreatedAt (snd sd) = ts \<and>
                  matches drv (filter (\<lambda>kv. fst kv \<noteq> ''created_at'') m) sd)
          (collection l))"

text \<open>
  The deduplicated, insertion-ordered result set of a query: of the documents of the
  snapshot that share a \<open>rowId\<close>, the one inserted first.
\<close>

definition deduplicated :: "driver \<Rightarrow> LobbyRepo \<Rightarrow> int \<Rightarrow> bsonM \<Rightarrow> LobbyServer list" where
  "deduplicated drv l ts m = dedup_first (\<lambda>d. Server.RowId (Server d)) (snapshot drv l ts m)"

text \<open>A document is expired when its \<open>createdAt\<close> is at most \<open>now - ttl\<close>, in milliseconds.\<close>

definition expired :: "int \<Rightarrow> go_int \<Rightarrow> stored \<Rightarrow> bool" where
  "expired now ttl sd = (CreatedAt (snd sd) \<le> UnixMilli (now - sint ttl))"

section \<open>Scenarios\<close>

text \<open>
  Concrete inputs for the evaluations below. \<open>mk_server\<close> is a listing with the given
  row id, name and flags; \<open>mk_doc\<close> is the record \<open>processLobbyServer\<close> makes of it.
\<close>

definition mk_server :: "string \<Rightarrow> string \<Rightarrow> bool \<Rightarrow> bool \<Rightarrow> Server" where
  "mk_server rowId name pvp password =
     \<lparr>Server.RowId = rowId, SteamClanId = [], Address = ''10.0.0.1'', Port = 10999, Host = [],
      Platform = 1, Version = 0, Name = name, GameMode = ''survival'', Intent = ''cooperative'',
      Season = ''autumn'', Tags = [], MaxConnections = 6, Connected = 0, ModEnabled = False,
      PvpEnabled = pvp, HasPassword = password, IsDedicated = True, ClientHosted = False,
      AllowNewPlayers = True, ServerPaused = False, FriendOnly = False, ClanOnly = False\<rparr>"

definition mk_doc :: "string \<Rightarrow> int \<Rightarrow> Server \<Rightarrow> LobbyServer" where
  "mk_doc region ts server =
     \<lparr>LobbyServer.Region = region, Continent = ''NA'', Area = ''US'', City = ''Seattle'',
      PlatformName = ''Steam'', TagNames = [], CreatedAt = ts, Server = server\<rparr>"

text \<open>
  A driver for the evaluations; none of their filters holds a regular expression.
\<close>

definition plain_driver :: driver where
  "plain_driver = \<lparr>regex_match = (\<lambda>p opts s. p = s)\<rparr>"

definition empty_repo :: LobbyRepo where
  "empty_repo = \<lparr>collection = [], next_oid = 0\<rparr>"

text \<open>
  Two snapshots: one document written at 1000, then two documents written at 2000.
\<close>

definition two_snapshots :: LobbyRepo where
  "two_snapshots =
     \<lparr>collection =
        [(0, mk_doc ''US'' 1000 (mk_server ''1'' ''old'' False False)),
         (1, mk_doc ''US'' 2000 (mk_server ''1'' ''new'' False False)),
         (2, mk_doc ''EU'' 2000 (mk_server ''2'' ''other'' False False))],
      next_oid = 3\<rparr>"

text \<open>One snapshot with a server that has no password and a server that has one.\<close>

definition open_and_locked :: LobbyRepo where
  "open_and_locked =
     \<lparr>collection =
        [(0, mk_doc ''US'' 1000 (mk_server ''1'' ''open'' False False)),
         (1, mk_doc ''US'' 1000 (mk_server ''2'' ''locked'' False True))],
      next_oid = 2\<rparr>"

text \<open>The options of a request that asks for servers with a password, and nothing else.\<close>

definition want_password :: QueryLobbyServersOptions where
  "want_password =
     \<lparr>QueryLobbyServersOptions.Name = [], Address = [], Area = [], Intent = [], GameMode = [],
      PvpEnabled = 0, HasPassword = 1, ModEnabled = 0, Tags = [], Page = 1, Size = 10, Sort = []\<rparr>"

text \<open>
  The scenario of the spec (section 8): regions US and EU, platforms 1 and 2, one
  listing per pair; the pairs (US, 1) and (EU, 2) list the same server, row id 42. The
  units finish in the order of their launch.
\<close>

definition listing :: "string \<Rightarrow> int \<Rightarrow> Server" where
  "listing region platform =
     (if (region = ''US'' \<and> platform = 1) \<or> (region = ''EU'' \<and> platform = 2)
      then mk_server ''42'' ''shared'' False False
      else mk_server (region @ (if platform = 1 then ''-1'' else ''-2'')) ''single'' False False)"

definition four_listings :: env where
  "four_listings =
     \<lparr>GetCapableRegions = Inr [''US'', ''EU''],
      GetLobbyServers = (\<lambda>region platform. Inr [listing region platform]),
      ExplicitPlatforms = [1, 2],
      PlatformDisplayName = (\<lambda>region platform. ''Steam''),
      geoip_City = (\<lambda>address. Inr \<lparr>ContinentCode = ''NA'', CountryIsoCode = ''US'', CityNameEn = ''Seattle''\<rparr>),
      schedule = (\<lambda>units. units)\<rparr>"

text \<open>The same, with the listing call for (EU, 1) failing.\<close>

definition one_failing :: env where
  "one_failing =
     four_listings\<lparr>GetLobbyServers :=
       (\<lambda>region platform.
          if region = ''EU'' \<and> platform = 1 then Inl (Error ''timeout'')
          else Inr [listing region platform])\<rparr>"

text \<open>The collection after one sync of the four listings at time 5000 ms.\<close>

definition four_records :: LobbyRepo where
  "four_records =
     \<lparr>collection =
        [(0, mk_doc ''US'' 5000 (listing ''US'' 1)),
         (1, mk_doc ''US'' 5000 (listing ''US'' 2)),
         (2, mk_doc ''EU'' 5000 (listing ''EU'' 1)),
         (3, mk_doc ''EU'' 5000 (listing ''EU'' 2))],
      next_oid = 4\<rparr>"

text \<open>Three documents around an expiry threshold of 7000 ms.\<close>

definition around_threshold :: LobbyRepo where
  "around_threshold =
     \<lparr>collection =
        [(0, mk_doc ''US'' 6999 (mk_server ''1'' ''a'' False False)),
         (1, mk_doc ''US'' 7000 (mk_server ''2'' ''b'' False False)),
         (2, mk_doc ''US'' 7001 (mk_server ''3'' ''c'' False False))],
      next_oid = 3\<rparr>"

section \<open>Grouping and pagination\<close>

lemma dedup_first_subseq: "subseq (dedup_first key xs) xs"
proof (induction key xs rule: dedup_first.induct)
  case (1 key)
  then show ?case by simp
next
  case (2 key d ds)
  have "subseq (filter (\<lambda>e. key e \<noteq> key d) ds) ds" by simp
  with 2 have "subseq (dedup_first key (filter (\<lambda>e. key e \<noteq> key d) ds)) ds"
    using subseq_order.trans by blast
  then show ?case by simp
qed

lemma subseq_set_mono: "subseq xs ys \<Longrightarrow> set xs \<subseteq> set ys"
  by (induction rule: list_emb.induct) auto

lemma filter_of_subseq:
  "subseq R c \<Longrightarrow> distinct (map f c) \<Longrightarrow> filter (\<lambda>x. f x \<in> f ` set R) c = R"
proof (induction R c rule: list_emb.induct)
  case (list_emb_Nil ys)
  then show ?case by simp
next
  case (list_emb_Cons xs ys y)
  have "set xs \<subseteq> set ys" using list_emb_Cons.hyps by (rule subseq_set_mono)
  with list_emb_Cons.prems have "f y \<notin> f ` set xs" by auto
  then show ?case using list_emb_Cons by simp
next
  case (list_emb_Cons2 x y xs ys)
  have xy: "x = y" using list_emb_Cons2.hyps(1) .
  have d: "distinct (map f ys)" and ny: "f y \<notin> f ` set ys"
    using list_emb_Cons2.prems by simp_all
  have ih: "filter (\<lambda>z. f z \<in> f ` set xs) ys = xs"
    using list_emb_Cons2.IH [OF d] .
  have "filter (\<lambda>z. f z \<in> f ` set (y # xs)) ys = filter (\<lambda>z. f z \<in> f ` set xs) ys"
  proof (rule filter_cong [OF refl])
    fix z assume "z \<in> set ys"
    then have "f z \<in> f ` set ys" by simp
    with ny have "f z \<noteq> f y" by metis
    then show "(f z \<in> f ` set (y # xs)) = (f z \<in> f ` set xs)" by simp
  qed
  with ih have "filter (\<lambda>z. f z \<in> f ` set (y # xs)) (y # ys) = y # xs" by simp
  with xy show ?case by simp
qed

lemma dedup_first_distinct: "distinct (map key (dedup_first key xs))"
proof (induction key xs rule: dedup_first.induct)
  case (1 key) show ?case by simp
next
  case (2 key d ds)
  have "set (dedup_first key (filter (\<lambda>e. key e \<noteq> key d) ds)) \<subseteq> set (filter (\<lambda>e. key e \<noteq> key d) ds)"
    by (rule subseq_set_mono [OF dedup_first_subseq])
  then have "key d \<notin> key ` set (dedup_first key (filter (\<lambda>e. key e \<noteq> key d) ds))" by auto
  with 2 show ?case by simp
qed

lemma dedup_first_keys: "key ` set (dedup_first key xs) = key ` set xs"
proof (induction key xs rule: dedup_first.induct)
  case (1 key) show ?case by simp
next
  case (2 key d ds)
  then show ?case by auto
qed

lemma find_filter_other:
  "key d \<noteq> k \<Longrightarrow> find (\<lambda>e. key e = key d) (filter (\<lambda>e. key e \<noteq> k) xs) = find (\<lambda>e. key e = key d) xs"
  by (induction xs) auto

lemma dedup_first_is_first:
  "d \<in> set (dedup_first key xs) \<Longrightarrow> find (\<lambda>e. key e = key d) xs = Some d"
proof (induction key xs rule: dedup_first.induct)
  case (1 key) then show ?case by simp
next
  case (2 key x xs)
  show ?case
  proof (cases "d = x")
    case True then show ?thesis by simp
  next
    case False
    with "2.prems" have mem: "d \<in> set (dedup_first key (filter (\<lambda>e. key e \<noteq> key x) xs))" by simp
    have "set (dedup_first key (filter (\<lambda>e. key e \<noteq> key x) xs)) \<subseteq> set (filter (\<lambda>e. key e \<noteq> key x) xs)"
      by (rule subseq_set_mono [OF dedup_first_subseq])
    with mem have "d \<in> set (filter (\<lambda>e. key e \<noteq> key x) xs)" by (rule rev_subsetD)
    then have ne: "key d \<noteq> key x" by simp
    have "find (\<lambda>e. key e = key d) (filter (\<lambda>e. key e \<noteq> key x) xs) = Some d"
      using mem by (rule "2.IH")
    with find_filter_other [of key d "key x" xs, OF ne]
    have "find (\<lambda>e. key e = key d) xs = Some d" by simp
    moreover from ne have "key x \<noteq> key d" by (rule not_sym)
    ultimately show ?thesis by (simp only: find.simps if_False)
  qed
qed

lemma dedup_first_map: "dedup_first key (map f xs) = map f (dedup_first (\<lambda>x. key (f x)) xs)"
proof (induction "\<lambda>x. key (f x)" xs rule: dedup_first.induct)
  case 1 show ?case by simp
next
  case (2 d ds)
  then show ?case by (simp add: filter_map comp_def)
qed

lemma concat_pages:
  "concat (map (\<lambda>p. take s (drop (p * s) xs)) [0..<k]) = take (k * s) xs"
proof (induction k)
  case 0 show ?case by simp
next
  case (Suc k)
  have "take (k * s) xs @ take s (drop (k * s) xs) = take (k * s + s) xs"
    by (simp add: take_add)
  with Suc show ?case by (simp add: add.commute)
qed

lemma subseq_take: "subseq (take n xs) xs"
proof (induction xs arbitrary: n)
  case Nil show ?case by simp
next
  case (Cons x xs)
  show ?case by (cases n) (simp_all add: Cons)
qed

lemma subseq_drop: "subseq (drop n xs) xs"
proof (induction xs arbitrary: n)
  case Nil show ?case by simp
next
  case (Cons x xs)
  show ?case
  proof (cases n)
    case 0 then show ?thesis by simp
  next
    case (Suc k)
    have "subseq (drop k xs) (x # xs)" using Cons [of k] by (rule list_emb_Cons)
    with Suc show ?thesis by simp
  qed
qed

lemma field_created_at: "field sd ''created_at'' = Some (BInt (CreatedAt (snd sd)))"
  by (simp add: field_def)

lemma field_id: "field sd ''_id'' = Some (BOid (fst sd))"
  by (simp add: field_def)

lemma matches_Nil: "matches drv [] sd"
  by (simp add: matches_def)

lemma matches_Cons:
  "matches drv ((k, c) # m) sd \<longleftrightarrow> holds drv (field sd k) c \<and> matches drv m sd"
  by (simp add: matches_def)

lemma matches_id_in: "matches drv [(''_id'', In (map BOid ids))] sd \<longleftrightarrow> fst sd \<in> set ids"
  by (auto simp add: matches_Cons matches_Nil field_id)

lemma matches_created_at:
  "matches drv (bson_put ''created_at'' (Eq (BInt ts)) m) sd \<longleftrightarrow>
     CreatedAt (snd sd) = ts \<and> matches drv (filter (\<lambda>kv. fst kv \<noteq> ''created_at'') m) sd"
  by (simp add: bson_put_def matches_Cons field_created_at)

lemma match_stage_snapshot:
  "map snd (match_stage drv (bson_put ''created_at'' (Eq (BInt ts)) m) (collection l)) = snapshot drv l ts m"
proof -
  have "matches drv (bson_put ''created_at'' (Eq (BInt ts)) m) =
          (\<lambda>sd. CreatedAt (snd sd) = ts \<and> matches drv (filter (\<lambda>kv. fst kv \<noteq> ''created_at'') m) sd)"
    by (rule ext) (rule matches_created_at)
  then show ?thesis by (simp add: match_stage_def snapshot_def)
qed

lemma lastTs_Cons:
  "collection l = sd # rest \<Longrightarrow> lastTs drv l = Inr (Some (CreatedAt (snd sd)))"
  by (simp add: lastTs_def group_created_at_def sort_stage_def Aggregate_One_def)

lemma lastTs_Nil:
  "collection l = [] \<Longrightarrow> lastTs drv l = Inl (Error ''mongo: no documents in result'')"
  by (simp add: lastTs_def group_created_at_def sort_stage_def Aggregate_One_def)

lemma Find_All_ids:
  assumes "distinct (map fst c)" and "subseq R c"
  shows "Find_All drv c [(''_id'', In (map BOid (map fst R)))] =
           (if R = [] then Inl (Error ''$in needs an array'') else Inr (map snd R))"
proof -
  have "matches drv [(''_id'', In (map BOid (map fst R)))] = (\<lambda>sd. fst sd \<in> fst ` set R)"
    by (rule ext) (simp only: matches_id_in set_map)
  moreover have "filter (\<lambda>sd. fst sd \<in> fst ` set R) c = R"
    using assms(2) assms(1) by (rule filter_of_subseq)
  ultimately show ?thesis by (simp add: Find_All_def)
qed

lemma page_ids_eq:
  assumes "0 < sint sz"
  shows "page_ids drv l m page sz =
           (if sint ((page - 1) * sz) < 0 then Inl (Error ''$skip: negative'')
            else Inr (map fst (take (nat (sint sz)) (drop (nat (sint ((page - 1) * sz)))
                   (dedup_first (\<lambda>sd. Server.RowId (Server (snd sd))) (match_stage drv m (collection l)))))))"
  using assms
  by (simp add: page_ids_def skip_stage_def limit_stage_def group_row_id_def take_map drop_map comp_def)

lemma page_subseq:
  "subseq (take n (drop k (dedup_first key (match_stage drv m c)))) c"
proof -
  have "subseq (take n (drop k (dedup_first key (match_stage drv m c)))) (drop k (dedup_first key (match_stage drv m c)))"
    by (rule subseq_take)
  also have "subseq (drop k (dedup_first key (match_stage drv m c))) (dedup_first key (match_stage drv m c))"
    by (rule subseq_drop)
  also have "subseq (dedup_first key (match_stage drv m c)) (match_stage drv m c)"
    by (rule dedup_first_subseq)
  also have "subseq (match_stage drv m c) c"
    by (simp add: match_stage_def)
  finally show ?thesis .
qed

lemma deduplicated_eq:
  "map snd (dedup_first (\<lambda>sd. Server.RowId (Server (snd sd)))
             (match_stage drv (bson_put ''created_at'' (Eq (BInt ts)) m) (collection l))) =
   deduplicated drv l ts m"
  by (simp add: deduplicated_def match_stage_snapshot [symmetric] dedup_first_map)

lemma FindServers_result:
  assumes ids: "distinct (map fst (collection l))"
    and ts: "lastTs drv l = Inr (Some ts)"
  shows "FindServers drv l page0 size0 srt flt =
           (let page = (if sint page0 \<le> 0 then 1 else page0);
                sz = (if sint size0 \<le> 0 then 10 else size0);
                items = take (nat (sint sz)) (drop (nat (sint ((page - 1) * sz))) (deduplicated drv l ts flt))
            in if sint ((page - 1) * sz) < 0 then Inl (Error ''$skip: negative'')
               else if items = [] then Inl (Error ''$in needs an array'')
               else Inr \<lparr>Total = int (length (collection l)), List = items\<rparr>)"
proof -
  define page where "page = (if sint page0 \<le> 0 then 1 else page0)"
  define sz where "sz = (if sint size0 \<le> 0 then 10 else size0)"
  define m where "m = bson_put ''created_at'' (Eq (BInt ts)) flt"
  define R where "R = take (nat (sint sz)) (drop (nat (sint ((page - 1) * sz)))
                   (dedup_first (\<lambda>sd. Server.RowId (Server (snd sd))) (match_stage drv m (collection l))))"
  have pos: "0 < sint sz" by (simp add: sz_def)
  have pid: "page_ids drv l m page sz =
               (if sint ((page - 1) * sz) < 0 then Inl (Error ''$skip: negative'') else Inr (map fst R))"
    unfolding R_def using pos by (rule page_ids_eq)
  have sub: "subseq R (collection l)" unfolding R_def by (rule page_subseq)
  have found: "Find_All drv (collection l) [(''_id'', In (map BOid (map fst R)))] =
                 (if R = [] then Inl (Error ''$in needs an array'') else Inr (map snd R))"
    using ids sub by (rule Find_All_ids)
  have lst: "map snd R = take (nat (sint sz)) (drop (nat (sint ((page - 1) * sz))) (deduplicated drv l ts flt))"
    unfolding R_def m_def by (simp add: take_map [symmetric] drop_map [symmetric] deduplicated_eq)
  have empty: "(R = []) = (map snd R = [])" by simp
  have "FindServers drv l page0 size0 srt flt =
          (case page_ids drv l m page sz of
             Inl err \<Rightarrow> Inl err
           | Inr ids \<Rightarrow>
               (case Find_All drv (collection l) [(''_id'', In (map BOid ids))] of
                  Inl err \<Rightarrow> Inl err
                | Inr list \<Rightarrow> Inr \<lparr>Total = int (length (collection l)), List = list\<rparr>))"
    by (simp add: FindServers_def Let_def ts EstimatedCount_def page_def sz_def m_def split: sum.split)
  also have "\<dots> = (if sint ((page - 1) * sz) < 0 then Inl (Error ''$skip: negative'')
           else if R = [] then Inl (Error ''$in needs an array'')
           else Inr \<lparr>Total = int (length (collection l)), List = map snd R\<rparr>)"
    by (simp add: pid found [unfolded map_map])
  finally have "FindServers drv l page0 size0 srt flt =
          (if sint ((page - 1) * sz) < 0 then Inl (Error ''$skip: negative'')
           else if map snd R = [] then Inl (Error ''$in needs an array'')
           else Inr \<lparr>Total = int (length (collection l)), List = map snd R\<rparr>)"
    by (simp only: empty)
  then show ?thesis
    by (simp only: lst Let_def page_def [symmetric] sz_def [symmetric])
qed

section \<open>Signed 64-bit arithmetic\<close>

lemma sint_of_nat_64: "n < 2 ^ 63 \<Longrightarrow> sint (word_of_nat n :: 64 word) = int n"
  by (simp add: signed_of_nat signed_take_bit_int_eq_self)

lemma sint_pred_64: "0 < sint (x :: 64 word) \<Longrightarrow> sint (x - 1) = sint x - 1"
proof -
  assume pos: "0 < sint x"
  have "sint x < 2 ^ 63" using sint_less [of x] by simp
  with pos show ?thesis
    by (simp add: sint_word_ariths signed_take_bit_int_eq_self)
qed

lemma sint_mult_64:
  "0 \<le> sint (a :: 64 word) \<Longrightarrow> 0 \<le> sint (b :: 64 word) \<Longrightarrow> sint a * sint b < 2 ^ 63 \<Longrightarrow>
     sint (a * b) = sint a * sint b"
proof -
  assume a: "0 \<le> sint a" and b: "0 \<le> sint b" and lt: "sint a * sint b < 2 ^ 63"
  from a b have "0 \<le> sint a * sint b" by simp
  then have "- (2 ^ 63) \<le> sint a * sint b" by simp
  from this lt have "signed_take_bit 63 (sint a * sint b) = sint a * sint b"
    by (rule signed_take_bit_int_eq_self)
  then show ?thesis by (simp add: sint_word_ariths)
qed

section \<open>Pages of the deduplicated result\<close>

lemma FindServers_empty_error:
  "collection l = [] \<Longrightarrow>
     FindServers drv l page sz srt flt = Inl (Error ''mongo: no documents in result'')"
  by (simp add: FindServers_def lastTs_Nil)

lemma FindServers_total:
  "lastTs drv l = Inr (Some ts) \<Longrightarrow> FindServers drv l page sz srt flt = Inr r \<Longrightarrow>
     Total r = int (length (collection l))"
  by (auto simp add: FindServers_def EstimatedCount_def Find_All_def Let_def split: sum.splits if_splits)

lemma wf_repo_distinct: "wf_repo l \<Longrightarrow> distinct (map fst (collection l))"
  by (simp add: wf_repo_def)

lemma FindServers_slice:
  assumes "wf_repo l" and "lastTs drv l = Inr (Some ts)"
    and "FindServers drv l page sz srt flt = Inr r"
  shows "\<exists>k n. List r = take n (drop k (deduplicated drv l ts flt))"
proof -
  have ids: "distinct (map fst (collection l))" using assms(1) by (rule wf_repo_distinct)
  define p where "p = (if sint page \<le> 0 then 1 else page)"
  define s where "s = (if sint sz \<le> 0 then 10 else sz)"
  define items where
    "items = take (nat (sint s)) (drop (nat (sint ((p - 1) * s))) (deduplicated drv l ts flt))"
  have res: "FindServers drv l page sz srt flt =
          (if sint ((p - 1) * s) < 0 then Inl (Error ''$skip: negative'')
           else if items = [] then Inl (Error ''$in needs an array'')
           else Inr \<lparr>Total = int (length (collection l)), List = items\<rparr>)"
    using FindServers_result [OF ids assms(2), of page sz srt flt]
    by (simp only: Let_def p_def s_def items_def)
  from res assms(3) have "r = \<lparr>Total = int (length (collection l)), List = items\<rparr>"
    by (simp split: if_splits)
  then have "List r = items" by simp
  then show ?thesis unfolding items_def by blast
qed

lemma ceil_pages_cover: "0 < S \<Longrightarrow> D \<le> ((D + S - 1) div S) * (S::nat)"
proof -
  assume pos: "0 < S"
  have "(D + S - 1) div S * S + (D + S - 1) mod S = D + S - 1" by simp
  moreover from pos have "(D + S - 1) mod S < S" by simp
  ultimately show ?thesis by linarith
qed

lemma page_offset_less:
  assumes "0 < S" and "1 \<le> p" and "p \<le> (D + S - 1) div (S::nat)"
  shows "(p - 1) * S < D"
proof -
  have "p * S \<le> (D + S - 1) div S * S" using assms(3) by (rule mult_le_mono1)
  also have "\<dots> \<le> D + S - 1" by simp
  finally have le: "p * S \<le> D + S - 1" .
  from assms(2) have "(p - 1) * S + S = p * S" by (simp add: algebra_simps flip: add_mult_distrib)
  with le assms(1) show ?thesis by linarith
qed

lemma deduplicated_length: "length (deduplicated drv l ts flt) \<le> length (collection l)"
proof -
  have "length (deduplicated drv l ts flt) \<le> length (snapshot drv l ts flt)"
    unfolding deduplicated_def using dedup_first_subseq by (rule list_emb_length)
  also have "\<dots> \<le> length (collection l)"
    by (simp add: snapshot_def)
  finally show ?thesis .
qed

lemma deduplicated_distinct: "distinct (deduplicated drv l ts flt)"
proof -
  have "distinct (map (\<lambda>d. Server.RowId (Server d)) (deduplicated drv l ts flt))"
    unfolding deduplicated_def by (rule dedup_first_distinct)
  then show ?thesis by (simp add: distinct_map)
qed

lemma FindServers_nth_page:
  assumes wf: "wf_repo l" and ts: "lastTs drv l = Inr (Some ts)"
    and sz: "0 < sint sz" and small: "length (collection l) < 2 ^ 63"
    and p1: "1 \<le> p" and pk: "p \<le> (length (deduplicated drv l ts flt) + nat (sint sz) - 1) div nat (sint sz)"
  shows "FindServers drv l (word_of_nat p) sz srt flt =
           Inr \<lparr>Total = int (length (collection l)),
                List = take (nat (sint sz)) (drop ((p - 1) * nat (sint sz)) (deduplicated drv l ts flt))\<rparr>"
proof -
  let ?reps = "deduplicated drv l ts flt"
  let ?S = "nat (sint sz)"
  have S: "0 < ?S" using sz by simp
  have off: "(p - 1) * ?S < length ?reps" using S p1 pk by (rule page_offset_less)
  have D: "length ?reps < 2 ^ 63" using deduplicated_length [of drv l ts flt] small by simp
  have "1 \<le> ?S" using S by linarith
  then have "(p - 1) * 1 \<le> (p - 1) * ?S" by (rule mult_le_mono2)
  then have "p - 1 \<le> (p - 1) * ?S" by (simp only: mult_1_right)
  from this off have "p - 1 < length ?reps" by (rule le_less_trans)
  then have "p \<le> length ?reps" by linarith
  then have p_small: "p < 2 ^ 63" using D by (rule le_less_trans)
  have sp: "sint (word_of_nat p :: 64 word) = int p" using p_small by (rule sint_of_nat_64)
  with p1 have ppos: "0 < sint (word_of_nat p :: 64 word)" by simp
  have spred: "sint (word_of_nat p - 1 :: 64 word) = int p - 1"
    using sint_pred_64 [OF ppos] sp by simp
  have lt: "(p - 1) * ?S < 2 ^ 63" using off D by (rule less_trans)
  have eq: "int ((p - 1) * ?S) = (int p - 1) * sint sz"
    using p1 sz by (simp add: of_nat_diff)
  have "int ((p - 1) * ?S) < int (2 ^ 63)" using lt by (simp only: of_nat_less_iff)
  then have prod: "(int p - 1) * sint sz < 2 ^ 63" by (simp only: eq) simp
  have smul: "sint ((word_of_nat p - 1) * sz) = (int p - 1) * sint sz"
    using sint_mult_64 [of "word_of_nat p - 1" sz] spred p1 sz prod by simp
  have "0 \<le> int ((p - 1) * ?S)" by simp
  then have nn: "\<not> sint ((word_of_nat p - 1) * sz) < 0" by (simp only: smul eq [symmetric] not_less)
  have skip: "nat (sint ((word_of_nat p - 1) * sz)) = (p - 1) * ?S"
    by (simp only: smul eq [symmetric] nat_int)
  have ids: "distinct (map fst (collection l))" using wf by (rule wf_repo_distinct)
  have "length (take ?S (drop ((p - 1) * ?S) ?reps)) = min (length ?reps - (p - 1) * ?S) ?S"
    by (simp only: length_take length_drop)
  moreover have "0 < min (length ?reps - (p - 1) * ?S) ?S"
    using S off by (simp only: min_less_iff_conj zero_less_diff)
  ultimately have "0 < length (take ?S (drop ((p - 1) * ?S) ?reps))" by (simp only:)
  then have some: "take ?S (drop ((p - 1) * ?S) ?reps) \<noteq> []" by simp
  have "FindServers drv l (word_of_nat p) sz srt flt =
          (if sint ((word_of_nat p - 1) * sz) < 0 then Inl (Error ''$skip: negative'')
           else if take ?S (drop (nat (sint ((word_of_nat p - 1) * sz))) ?reps) = []
           then Inl (Error ''$in needs an array'')
           else Inr \<lparr>Total = int (length (collection l)),
                     List = take ?S (drop (nat (sint ((word_of_nat p - 1) * sz))) ?reps)\<rparr>)"
    using FindServers_result [OF ids ts, of "word_of_nat p" sz srt flt] ppos sz
    by (simp add: Let_def)
  with nn skip some show ?thesis by simp
qed

section \<open>The fan-out\<close>

lemma processLobbyServer_CreatedAt:
  "processLobbyServer e servers region ts = Inr ans \<Longrightarrow> \<forall>s \<in> set ans. CreatedAt s = ts"
proof (induction servers arbitrary: ans)
  case Nil
  then show ?case by simp
next
  case (Cons server servers)
  then show ?case
    by (auto simp add: Let_def split: sum.splits)
qed

lemma unit_of_work_CreatedAt:
  "unit_of_work e ts rp = Inr ans \<Longrightarrow> \<forall>s \<in> set ans. CreatedAt s = ts"
  by (auto simp add: unit_of_work_def split: sum.splits if_splits dest: processLobbyServer_CreatedAt)

lemma errgroup_run_CreatedAt:
  "\<forall>r \<in> set rs. \<forall>ans. r = Inr ans \<longrightarrow> (\<forall>s \<in> set ans. CreatedAt s = ts) \<Longrightarrow>
   \<forall>s \<in> set acc. CreatedAt s = ts \<Longrightarrow>
   errgroup_run rs (acc, kept) = (servers, kept') \<Longrightarrow>
   \<forall>s \<in> set servers. CreatedAt s = ts"
proof (induction rs "(acc, kept)" arbitrary: acc kept rule: errgroup_run.induct)
  case 1
  then show ?case by simp
next
  case (2 err rs servers0 kept0)
  then show ?case by simp
next
  case (3 processList rs servers0 kept0)
  have "\<forall>s \<in> set (servers0 @ processList). CreatedAt s = ts"
    using "3.prems"(1) "3.prems"(2) by auto
  with 3 show ?case by simp
qed

lemma errgroup_run_error:
  "errgroup_run rs (acc, kept) = (servers, kept') \<Longrightarrow>
   kept' = (case kept of Some err \<Rightarrow> Some err
            | None \<Rightarrow> (case find isl rs of Some (Inl err) \<Rightarrow> Some err | _ \<Rightarrow> None))"
proof (induction rs "(acc, kept)" arbitrary: acc kept rule: errgroup_run.induct)
  case 1
  then show ?case by (simp split: option.splits)
next
  case (2 err rs servers0 kept0)
  then show ?case by (simp split: option.splits)
next
  case (3 processList rs servers0 kept0)
  then show ?case by (simp split: option.splits)
qed

lemma find_isl_Some:
  "u \<in> set us \<Longrightarrow> isl (f u) \<Longrightarrow> \<exists>err. find isl (map f us) = Some (Inl err)"
proof (induction us)
  case Nil
  then show ?case by simp
next
  case (Cons a us)
  show ?case
  proof (cases "isl (f a)")
    case True
    then obtain err where "f a = Inl err" by (cases "f a") simp_all
    then show ?thesis by simp
  next
    case False
    with Cons.prems have "u \<in> set us" by auto
    with Cons.IH Cons.prems(2) False show ?thesis by simp
  qed
qed

lemma GetAllServersFromLobby_blocked:
  "GetCapableRegions e = Inr regions \<Longrightarrow> fanout e regions \<noteq> [] \<Longrightarrow>
     GetAllServersFromLobby e now 0 = None"
  by (simp add: GetAllServersFromLobby_def)

lemma GetAllServersFromLobby_CreatedAt:
  assumes "GetAllServersFromLobby e now limit = Some (Inr servers)"
  shows "\<forall>s \<in> set servers. CreatedAt s = UnixMilli now"
proof -
  from assms obtain regions where regions: "GetCapableRegions e = Inr regions"
    by (cases "GetCapableRegions e") (simp_all add: GetAllServersFromLobby_def)
  let ?rs = "map (unit_of_work e (UnixMilli now)) (schedule e (fanout e regions))"
  obtain acc kept where run: "errgroup_run ?rs ([], None) = (acc, kept)"
    by (cases "errgroup_run ?rs ([], None)")
  from assms regions run have "acc = servers"
    by (auto simp add: GetAllServersFromLobby_def Let_def split: if_splits option.splits)
  moreover have "\<forall>s \<in> set acc. CreatedAt s = UnixMilli now"
  proof (rule errgroup_run_CreatedAt [OF _ _ run])
    show "\<forall>r \<in> set ?rs. \<forall>ans. r = Inr ans \<longrightarrow> (\<forall>s \<in> set ans. CreatedAt s = UnixMilli now)"
      by (auto dest: unit_of_work_CreatedAt)
    show "\<forall>s \<in> set []. CreatedAt s = UnixMilli now" by simp
  qed
  ultimately show ?thesis by simp
qed

lemma InsertManyServers_appends:
  "InsertManyServers l servers = (l', Inr n) \<Longrightarrow>
     collection l' = collection l @ zip [next_oid l ..< next_oid l + length servers] servers \<and>
     n = int (length servers)"
  by (auto simp add: InsertManyServers_def InsertMany_def Let_def split: if_splits)

section \<open>Expiry\<close>

lemma sint_neg_64: "sint (ttl :: 64 word) \<noteq> - (2 ^ 63) \<Longrightarrow> sint (- ttl) = - sint ttl"
proof -
  assume ne: "sint ttl \<noteq> - (2 ^ 63)"
  have lo: "- (2 ^ 63) \<le> sint ttl" using sint_greater_eq [of ttl] by simp
  have hi: "sint ttl < 2 ^ 63" using sint_less [of ttl] by simp
  from lo ne have "- (2 ^ 63) < sint ttl" by linarith
  then have a: "- sint ttl < 2 ^ 63" by linarith
  from hi have b: "- (2 ^ 63) \<le> - sint ttl" by linarith
  from b a have "signed_take_bit 63 (- sint ttl) = - sint ttl"
    by (rule signed_take_bit_int_eq_self)
  then show ?thesis by (simp add: sint_word_ariths)
qed

lemma matches_created_at_lte:
  "matches drv [(''created_at'', Lte (BInt x))] sd \<longleftrightarrow> CreatedAt (snd sd) \<le> x"
  by (simp add: matches_Cons matches_Nil field_created_at)

lemma UnixMilli_whole_ms: "UnixMilli (now - ms * 1000000) = UnixMilli now - ms"
  by (simp add: UnixMilli_def)

text \<open>
  Within the snapshot that the first query resolves, the page is a slice of the
  deduplicated result set, no \<open>rowId\<close> comes twice, and every document returned is the
  first one inserted among the matching documents with its \<open>rowId\<close>.
\<close>

lemma FindServers_representatives:
  assumes "wf_repo l" and "lastTs drv l = Inr (Some ts)"
    and "FindServers drv l page sz srt flt = Inr r"
  shows "distinct (map (\<lambda>d. Server.RowId (Server d)) (List r)) \<and>
         (\<forall>d \<in> set (List r).
            find (\<lambda>e. Server.RowId (Server e) = Server.RowId (Server d)) (snapshot drv l ts flt) = Some d) \<and>
         (\<exists>k n. List r = take n (drop k (deduplicated drv l ts flt))) \<and>
         distinct (map (\<lambda>d. Server.RowId (Server d)) (deduplicated drv l ts flt)) \<and>
         set (map (\<lambda>d. Server.RowId (Server d)) (deduplicated drv l ts flt)) =
           set (map (\<lambda>d. Server.RowId (Server d)) (snapshot drv l ts flt))"
proof -
  let ?key = "\<lambda>d. Server.RowId (Server d)"
  let ?reps = "deduplicated drv l ts flt"
  obtain k n where slice: "List r = take n (drop k ?reps)"
    using FindServers_slice [OF assms] by blast
  have dreps: "distinct (map ?key ?reps)"
    unfolding deduplicated_def by (rule dedup_first_distinct)
  have "distinct (map ?key (take n (drop k ?reps)))"
    unfolding take_map [symmetric] drop_map [symmetric]
    using dreps by (simp add: distinct_take distinct_drop)
  then have d1: "distinct (map ?key (List r))" by (simp add: slice)
  have sub: "set (List r) \<subseteq> set ?reps"
    unfolding slice using set_take_subset set_drop_subset by fast
  have first: "\<forall>d \<in> set (List r). find (\<lambda>e. ?key e = ?key d) (snapshot drv l ts flt) = Some d"
  proof
    fix d assume "d \<in> set (List r)"
    with sub have "d \<in> set (dedup_first ?key (snapshot drv l ts flt))"
      unfolding deduplicated_def by blast
    then show "find (\<lambda>e. ?key e = ?key d) (snapshot drv l ts flt) = Some d"
      by (rule dedup_first_is_first)
  qed
  have keys: "set (map ?key ?reps) = set (map ?key (snapshot drv l ts flt))"
    unfolding deduplicated_def set_map by (rule dedup_first_keys)
  from d1 first slice dreps keys show ?thesis by blast
qed

section \<open>The invariant of the collection\<close>

lemma wf_repo_empty: "wf_repo empty_repo"
  by (simp add: wf_repo_def empty_repo_def)

lemma wf_repo_InsertMany:
  assumes "wf_repo l"
  shows "wf_repo (fst (InsertMany l docs))"
proof (cases "docs = []")
  case True
  with assms show ?thesis by (simp add: InsertMany_def)
next
  case False
  let ?ids = "[next_oid l ..< next_oid l + length docs]"
  have old: "\<forall>sd \<in> set (collection l). fst sd < next_oid l"
    using assms by (simp add: wf_repo_def list_all_iff)
  have fst_new: "map fst (zip ?ids docs) = ?ids" by simp
  have "set (map fst (collection l)) \<inter> set ?ids = {}"
    using old by auto
  then have "distinct (map fst (collection l) @ ?ids)"
    using assms by (simp add: wf_repo_def)
  then have d: "distinct (map fst (collection l @ zip ?ids docs))"
    by (simp only: map_append fst_new)
  have "\<forall>sd \<in> set (zip ?ids docs). fst sd < next_oid l + length docs"
    by (auto dest: set_zip_leftD)
  with old have "\<forall>sd \<in> set (collection l @ zip ?ids docs). fst sd < next_oid l + length docs"
    by auto
  with d False show ?thesis
    by (simp add: InsertMany_def wf_repo_def Let_def list_all_iff)
qed

lemma wf_repo_RemoveServers:
  assumes "wf_repo l"
  shows "wf_repo (fst (RemoveServers drv l m))"
  using assms
  by (simp add: RemoveServers_def RemoveAll_def EstimatedCount_def wf_repo_def Let_def
      distinct_map_filter list_all_iff)

section \<open>The claims\<close>

lemmas store_defs = FindServers_def lastTs_def Aggregate_One_def sort_stage_def
  group_created_at_def EstimatedCount_def page_ids_def skip_stage_def limit_stage_def
  group_row_id_def match_stage_def matches_def bson_put_def field_def Find_All_def

lemmas scenario_defs = mk_doc_def mk_server_def listing_def

text \<open>
  C1. The claim: for a store that is not empty, \<open>FindServers\<close> takes the maximum of the
  stored \<open>createdAt\<close> values as the current snapshot, and every record it returns
  belongs to that snapshot.

  The code does not: the sort stage names the key \<open>created\<close>, which the group documents
  do not have, and sorts ascending, so the first group stands. On the store
  \<open>two_snapshots\<close> the maximum is 2000, and the page returned is the document written
  at 1000.
\<close>

theorem FindServers_serves_first_snapshot:
  "\<exists>r. FindServers drv two_snapshots 1 10 [] [] = Inr r \<and> map CreatedAt (List r) = [1000] \<and>
       Max (set (map (\<lambda>sd. CreatedAt (snd sd)) (collection two_snapshots))) = 2000"
  by (simp add: store_defs two_snapshots_def scenario_defs)

text \<open>
  C2. The claim: every record that \<open>GetServersByPage\<close> returns satisfies all the
  predicates of the options given; with the \<open>hasPassword\<close> option set, every record
  returned has the \<open>hasPassword\<close> value asked for.

  The code does not: line 134 computes the value of the \<open>has_password\<close> condition from
  \<open>options.PvpEnabled\<close>. A request for servers with a password (\<open>HasPassword = 1\<close>) and no
  \<open>pvpEnabled\<close> option gets the server without a password, and only that one.
\<close>

theorem GetServersByPage_password_filter:
  "\<exists>r. GetServersByPage drv open_and_locked want_password = Inr r \<and>
       map QueryLobbyServersResp.Name (List r) = [''open''] \<and>
       map QueryLobbyServersResp.HasPassword (List r) = [False]"
  by (simp add: GetServersByPage_def queryM_def want_password_def lobbyRepo2Resp_def store_defs
      open_and_locked_def scenario_defs)

text \<open>
  C3. The claim: the total that \<open>FindServers\<close> returns is the number of stored
  documents whose \<open>createdAt\<close> is the current snapshot timestamp, before deduplication.

  The code does not: the count at line 125 is an estimated count, which is the size of
  the whole collection whatever filter the query carries. On the store \<open>two_snapshots\<close>
  the total is 3; the snapshot at 1000 has one document, the snapshot at 2000 has two.
\<close>

theorem FindServers_total_whole_collection:
  "\<exists>r. FindServers drv two_snapshots 1 10 [] [] = Inr r \<and> Total r = 3 \<and>
       length (filter (\<lambda>sd. CreatedAt (snd sd) = 1000) (collection two_snapshots)) = 1 \<and>
       length (filter (\<lambda>sd. CreatedAt (snd sd) = 2000) (collection two_snapshots)) = 2"
  by (simp add: store_defs two_snapshots_def scenario_defs)

text \<open>
  C10. For a fixed store, page, size and filter, \<open>FindServers\<close> returns the same result
  for every sort key: the key is defaulted at lines 94-96 and never read again.
\<close>

theorem FindServers_ignores_sort:
  "FindServers drv l page sz sort1 flt = FindServers drv l page sz sort2 flt"
  by (simp add: FindServers_def)

text \<open>
  C4. The claim: when the store holds no document, \<open>FindServers\<close> returns the empty page
  with the total 0 and no error, for every page, size, sort key and filter.

  The code does not: on a store without documents the first pipeline yields no group,
  \<open>One\<close> reports the driver's error for "no documents in result", and line 112 returns
  that error. The guard at line 116, which would return the empty page, is never reached.
\<close>

theorem FindServers_empty_store_error:
  "FindServers drv empty_repo 3 7 ''players'' [(''area'', Eq (BStr ''US''))] =
     Inl (Error ''mongo: no documents in result'')"
  by (simp add: FindServers_def lastTs_def Aggregate_One_def sort_stage_def group_created_at_def
      empty_repo_def)

text \<open>
  C7. The claim: of the documents of the current snapshot that share a \<open>rowId\<close>,
  \<open>FindServers\<close> returns one, the one inserted first, and the same one on every call.

  The code does not, by the defect of C1: it deduplicates the snapshot that its first
  query resolves, which is not the current one. On the store \<open>two_snapshots\<close> the
  representatives of the current snapshot (2000) are the documents named \<open>new\<close> and
  \<open>other\<close>, and the page returned holds the document named \<open>old\<close>, written at 1000.
  Within the snapshot it resolves the code does what the claim says
  (\<open>FindServers_representatives\<close>).
\<close>

theorem FindServers_stale_representatives:
  "\<exists>r. FindServers drv two_snapshots 1 10 [] [] = Inr r \<and>
       map (\<lambda>d. (Server.RowId (Server d), Server.Name (Server d))) (List r) = [(''1'', ''old'')] \<and>
       map (\<lambda>d. (Server.RowId (Server d), Server.Name (Server d), CreatedAt d))
         (deduplicated drv two_snapshots 2000 []) =
         [(''1'', ''new'', 2000), (''2'', ''other'', 2000)]"
  by (simp add: store_defs deduplicated_def snapshot_def two_snapshots_def scenario_defs)

text \<open>
  C8. For a page size \<open>S > 0\<close> and a deduplicated result set of \<open>D\<close> documents, the
  calls for the pages \<open>1, ..., ceil (D / S)\<close> all return a page, and the pages put one
  after the other are the deduplicated result set in insertion order: nothing is
  missing and nothing comes twice. The number of stored documents fits in 64 bits.
\<close>

theorem FindServers_pages_cover:
  assumes wf: "wf_repo l" and ts: "lastTs drv l = Inr (Some ts)"
    and sz: "0 < sint sz" and small: "length (collection l) < 2 ^ 63"
  shows "\<exists>pages.
           map (\<lambda>p. FindServers drv l (word_of_nat p) sz srt flt)
             [1 ..< Suc ((length (deduplicated drv l ts flt) + nat (sint sz) - 1) div nat (sint sz))] =
           map Inr pages \<and>
           concat (map List pages) = deduplicated drv l ts flt \<and>
           distinct (concat (map List pages))"
proof -
  let ?reps = "deduplicated drv l ts flt"
  let ?S = "nat (sint sz)"
  let ?k = "(length ?reps + ?S - 1) div ?S"
  let ?page = "\<lambda>p. \<lparr>Total = int (length (collection l)),
                      List = take ?S (drop ((p - 1) * ?S) ?reps)\<rparr>"
  have S: "0 < ?S" using sz by simp
  have calls: "map (\<lambda>p. FindServers drv l (word_of_nat p) sz srt flt) [1 ..< Suc ?k] =
                 map Inr (map ?page [1 ..< Suc ?k])"
    unfolding map_map
  proof (rule map_cong [OF refl])
    fix p assume "p \<in> set [1 ..< Suc ?k]"
    then have "1 \<le> p \<and> p < Suc ?k" by (simp only: set_upt atLeastLessThan_iff)
    then have p1: "1 \<le> p" and pk: "p \<le> ?k" by (simp_all only: less_Suc_eq_le)
    show "FindServers drv l (word_of_nat p) sz srt flt = (Inr \<circ> ?page) p"
      using FindServers_nth_page [OF wf ts sz small p1 pk, of srt] by simp
  qed
  have "[1 ..< Suc ?k] = map Suc [0 ..< ?k]" by (simp add: map_Suc_upt)
  then have "concat (map List (map ?page [1 ..< Suc ?k])) =
          concat (map (\<lambda>q. take ?S (drop (q * ?S) ?reps)) [0 ..< ?k])"
    by (simp add: comp_def)
  also have "\<dots> = take (?k * ?S) ?reps" by (rule concat_pages)
  also have "\<dots> = ?reps" using ceil_pages_cover [OF S, of "length ?reps"] by simp
  finally have all: "concat (map List (map ?page [1 ..< Suc ?k])) = ?reps" .
  have "distinct (concat (map List (map ?page [1 ..< Suc ?k])))"
    unfolding all by (rule deduplicated_distinct)
  with calls all show ?thesis by blast
qed

theorem FindServers_pages_cover_witness:
  "wf_repo four_records \<and>
   lastTs plain_driver four_records = Inr (Some 5000) \<and>
   0 < sint (2 :: go_int) \<and>
   length (collection four_records) < 2 ^ 63 \<and>
   (length (deduplicated plain_driver four_records 5000 []) + nat (sint (2 :: go_int)) - 1)
      div nat (sint (2 :: go_int)) = 2 \<and>
   (\<exists>pages.
      [FindServers plain_driver four_records 1 2 ''name'' [],
       FindServers plain_driver four_records 2 2 ''name'' []] = map Inr pages \<and>
      concat (map List pages) =
        [mk_doc ''US'' 5000 (listing ''US'' 1), mk_doc ''US'' 5000 (listing ''US'' 2),
         mk_doc ''EU'' 5000 (listing ''EU'' 1)] \<and>
      distinct (concat (map List pages)))"
proof -
  have wf: "wf_repo four_records"
    by (simp add: wf_repo_def four_records_def)
  have ts: "lastTs plain_driver four_records = Inr (Some 5000)"
    by (simp add: store_defs four_records_def scenario_defs)
  have sz: "0 < sint (2 :: go_int)" by simp
  have small: "length (collection four_records) < 2 ^ 63"
    by (simp add: four_records_def)
  have reps: "deduplicated plain_driver four_records 5000 [] =
        [mk_doc ''US'' 5000 (listing ''US'' 1), mk_doc ''US'' 5000 (listing ''US'' 2),
         mk_doc ''EU'' 5000 (listing ''EU'' 1)]"
    by (simp add: deduplicated_def snapshot_def matches_def four_records_def scenario_defs)
  have k: "(length (deduplicated plain_driver four_records 5000 []) + nat (sint (2 :: go_int)) - 1)
      div nat (sint (2 :: go_int)) = 2"
    by (simp add: reps)
  have upt: "[1 ..< Suc 2] = [1, 2]" by (simp add: upt_rec)
  from FindServers_pages_cover [OF wf ts sz small, of "''name''" "[]"]
  have "\<exists>pages.
      [FindServers plain_driver four_records 1 2 ''name'' [],
       FindServers plain_driver four_records 2 2 ''name'' []] = map Inr pages \<and>
      concat (map List pages) =
        [mk_doc ''US'' 5000 (listing ''US'' 1), mk_doc ''US'' 5000 (listing ''US'' 2),
         mk_doc ''EU'' 5000 (listing ''EU'' 1)] \<and>
      distinct (concat (map List pages))"
    unfolding k upt reps by simp
  with wf ts sz small k show ?thesis by blast
qed

text \<open>
  C5. If a unit of the fan-out returns an error, \<open>GetAllServersFromLobby\<close> returns the
  first error the group was handed and no record list, whatever the other units
  collected, and \<open>SyncLocalServers\<close> returns that error with the count 0 and leaves the
  collection as it was. This holds in whatever order the units finish, as long as the
  units that finish are the units launched. The limit is not 0: with the limit 0 no unit
  ever starts (\<open>GetAllServersFromLobby_blocked\<close>).
\<close>

theorem collect_first_error:
  assumes regions: "GetCapableRegions e = Inr regions"
    and limit: "limit \<noteq> 0"
    and all_finish: "set (schedule e (fanout e regions)) = set (fanout e regions)"
    and u: "u \<in> set (fanout e regions)"
    and fails: "isl (unit_of_work e (UnixMilli now) u)"
  shows "\<exists>err.
           find isl (map (unit_of_work e (UnixMilli now)) (schedule e (fanout e regions))) = Some (Inl err) \<and>
           GetAllServersFromLobby e now limit = Some (Inl err) \<and>
           SyncLocalServers e l now limit = Some (l, 0, Some err)"
proof -
  let ?rs = "map (unit_of_work e (UnixMilli now)) (schedule e (fanout e regions))"
  have ran: "u \<in> set (schedule e (fanout e regions))"
    using u by (simp only: all_finish)
  obtain err where first: "find isl ?rs = Some (Inl err)"
    using find_isl_Some [of u "schedule e (fanout e regions)" "unit_of_work e (UnixMilli now)", OF ran fails]
    by blast
  obtain servers kept where run: "errgroup_run ?rs ([], None) = (servers, kept)"
    by (cases "errgroup_run ?rs ([], None)")
  have kept: "kept = Some err"
    using errgroup_run_error [OF run] first by simp
  have collect: "GetAllServersFromLobby e now limit = Some (Inl err)"
    using regions limit run kept by (simp add: GetAllServersFromLobby_def)
  then have "SyncLocalServers e l now limit = Some (l, 0, Some err)"
    by (simp add: SyncLocalServers_def)
  with first collect show ?thesis by blast
qed

theorem collect_first_error_witness:
  "GetCapableRegions one_failing = Inr [''US'', ''EU''] \<and>
   (4 :: go_int) \<noteq> 0 \<and>
   set (schedule one_failing (fanout one_failing [''US'', ''EU''])) =
     set (fanout one_failing [''US'', ''EU'']) \<and>
   (''EU'', 1) \<in> set (fanout one_failing [''US'', ''EU'']) \<and>
   isl (unit_of_work one_failing (UnixMilli 5000123456) (''EU'', 1)) \<and>
   GetAllServersFromLobby one_failing 5000123456 4 = Some (Inl (Error ''timeout'')) \<and>
   SyncLocalServers one_failing empty_repo 5000123456 4 = Some (empty_repo, 0, Some (Error ''timeout''))"
proof -
  have regions: "GetCapableRegions one_failing = Inr [''US'', ''EU'']"
    by (simp add: one_failing_def four_listings_def)
  have limit: "(4 :: go_int) \<noteq> 0" by simp
  have all_finish: "set (schedule one_failing (fanout one_failing [''US'', ''EU''])) =
     set (fanout one_failing [''US'', ''EU''])"
    by (simp add: one_failing_def four_listings_def)
  have u: "(''EU'', 1) \<in> set (fanout one_failing [''US'', ''EU''])"
    by (simp add: one_failing_def four_listings_def fanout_def)
  have fails: "isl (unit_of_work one_failing (UnixMilli 5000123456) (''EU'', 1))"
    by (simp add: unit_of_work_def one_failing_def four_listings_def)
  have first: "find isl (map (unit_of_work one_failing (UnixMilli 5000123456))
                  (schedule one_failing (fanout one_failing [''US'', ''EU'']))) =
               Some (Inl (Error ''timeout''))"
    by (simp add: unit_of_work_def one_failing_def four_listings_def fanout_def Let_def)
  from collect_first_error [OF regions limit all_finish u fails, of empty_repo] first
  have "GetAllServersFromLobby one_failing 5000123456 4 = Some (Inl (Error ''timeout'')) \<and>
        SyncLocalServers one_failing empty_repo 5000123456 4 = Some (empty_repo, 0, Some (Error ''timeout''))"
    by auto
  with regions limit all_finish u fails show ?thesis by blast
qed

text \<open>
  C6. All the records of a successful \<open>GetAllServersFromLobby\<close> carry one \<open>createdAt\<close>,
  the clock reading taken at line 195 before the first unit is launched; and what a
  successful \<open>SyncLocalServers\<close> appends to the collection are records with that
  \<open>createdAt\<close>, as many as it reports.
\<close>

theorem collect_one_timestamp:
  "(GetAllServersFromLobby e now limit = Some (Inr servers) \<longrightarrow>
      (\<forall>s \<in> set servers. CreatedAt s = UnixMilli now)) \<and>
   (SyncLocalServers e l now limit = Some (l', n, None) \<longrightarrow>
      (\<exists>new. collection l' = collection l @ new \<and> n = int (length new) \<and>
             (\<forall>d \<in> set new. CreatedAt (snd d) = UnixMilli now)))"
proof (intro conjI impI)
  assume "GetAllServersFromLobby e now limit = Some (Inr servers)"
  then show "\<forall>s \<in> set servers. CreatedAt s = UnixMilli now"
    by (rule GetAllServersFromLobby_CreatedAt)
next
  assume sync: "SyncLocalServers e l now limit = Some (l', n, None)"
  then obtain collected where collect: "GetAllServersFromLobby e now limit = Some (Inr collected)"
    and ins: "InsertManyServers l collected = (l', Inr n)"
    by (auto simp add: SyncLocalServers_def split: option.splits sum.splits prod.splits)
  let ?new = "zip [next_oid l ..< next_oid l + length collected] collected"
  have ts: "\<forall>s \<in> set collected. CreatedAt s = UnixMilli now"
    using collect by (rule GetAllServersFromLobby_CreatedAt)
  have "\<forall>d \<in> set ?new. CreatedAt (snd d) = UnixMilli now"
    using ts by (auto dest: set_zip_rightD)
  moreover have "collection l' = collection l @ ?new" and "n = int (length ?new)"
    using InsertManyServers_appends [OF ins] by simp_all
  ultimately show "\<exists>new. collection l' = collection l @ new \<and> n = int (length new) \<and>
             (\<forall>d \<in> set new. CreatedAt (snd d) = UnixMilli now)"
    by blast
qed

theorem collect_one_timestamp_witness:
  "GetAllServersFromLobby four_listings 5000123456 4 =
     Some (Inr [mk_doc ''US'' 5000 (listing ''US'' 1), mk_doc ''US'' 5000 (listing ''US'' 2),
                mk_doc ''EU'' 5000 (listing ''EU'' 1), mk_doc ''EU'' 5000 (listing ''EU'' 2)]) \<and>
   SyncLocalServers four_listings empty_repo 5000123456 4 = Some (four_records, 4, None) \<and>
   UnixMilli 5000123456 = 5000 \<and>
   map CreatedAt [mk_doc ''US'' 5000 (listing ''US'' 1), mk_doc ''US'' 5000 (listing ''US'' 2),
                  mk_doc ''EU'' 5000 (listing ''EU'' 1), mk_doc ''EU'' 5000 (listing ''EU'' 2)] =
     [UnixMilli 5000123456, UnixMilli 5000123456, UnixMilli 5000123456, UnixMilli 5000123456] \<and>
   (\<exists>new. collection four_records = collection empty_repo @ new \<and> (4 :: int) = int (length new) \<and>
          list_all (\<lambda>d. CreatedAt (snd d) = UnixMilli 5000123456) new)"
proof -
  let ?servers = "[mk_doc ''US'' 5000 (listing ''US'' 1), mk_doc ''US'' 5000 (listing ''US'' 2),
                mk_doc ''EU'' 5000 (listing ''EU'' 1), mk_doc ''EU'' 5000 (listing ''EU'' 2)]"
  have ms: "UnixMilli 5000123456 = 5000" by (simp add: UnixMilli_def)
  have collect: "GetAllServersFromLobby four_listings 5000123456 4 = Some (Inr ?servers)"
    by (simp add: GetAllServersFromLobby_def four_listings_def fanout_def unit_of_work_def ms Let_def
        mk_doc_def listing_def mk_server_def)
  have sync: "SyncLocalServers four_listings empty_repo 5000123456 4 = Some (four_records, 4, None)"
    by (simp add: SyncLocalServers_def collect InsertManyServers_def InsertMany_def empty_repo_def
        four_records_def Let_def upt_rec)
  note both = collect_one_timestamp [of four_listings 5000123456 4 ?servers empty_repo four_records 4]
  from both collect have "\<forall>s \<in> set ?servers. CreatedAt s = UnixMilli 5000123456" by blast
  then have stamps: "map CreatedAt ?servers =
     [UnixMilli 5000123456, UnixMilli 5000123456, UnixMilli 5000123456, UnixMilli 5000123456]"
    by simp
  from both sync have "\<exists>new. collection four_records = collection empty_repo @ new \<and>
          (4 :: int) = int (length new) \<and> (\<forall>d \<in> set new. CreatedAt (snd d) = UnixMilli 5000123456)"
    by blast
  then have appended: "\<exists>new. collection four_records = collection empty_repo @ new \<and>
          (4 :: int) = int (length new) \<and> list_all (\<lambda>d. CreatedAt (snd d) = UnixMilli 5000123456) new"
    by (simp only: list_all_iff)
  from collect sync ms stamps appended show ?thesis by blast
qed

text \<open>
  C9. \<open>ClearExpiredServers\<close> deletes exactly the documents whose \<open>createdAt\<close> is at most
  \<open>now - ttl\<close> (in milliseconds, rounded down as \<open>createdAt\<close> is) and returns the number
  deleted together with the number of documents left in the collection. Of three
  documents written at \<open>now - ttl - 1\<close>, \<open>now - ttl\<close> and \<open>now - ttl + 1\<close> it deletes the
  first two. The \<open>ttl\<close> is not the least 64-bit duration, whose negation at line 244 is
  itself.
\<close>

theorem ClearExpiredServers_deletes_expired:
  assumes "sint ttl \<noteq> - (2 ^ 63)"
  shows "ClearExpiredServers drv l now ttl =
           (l\<lparr>collection := filter (\<lambda>sd. \<not> expired now ttl sd) (collection l)\<rparr>,
            Inr (int (length (filter (expired now ttl) (collection l))),
                 int (length (filter (\<lambda>sd. \<not> expired now ttl sd) (collection l)))))"
proof -
  have neg: "now + sint (- ttl) = now - sint ttl"
    using sint_neg_64 [OF assms] by simp
  have m: "matches drv [(''created_at'', Lte (BInt (UnixMilli (now - sint ttl))))] = expired now ttl"
    by (rule ext) (simp add: matches_created_at_lte expired_def)
  show ?thesis
    by (simp add: ClearExpiredServers_def RemoveServers_def RemoveAll_def EstimatedCount_def Let_def neg m)
qed

theorem ClearExpiredServers_deletes_expired_witness:
  "sint (3000000000 :: go_int) \<noteq> - (2 ^ 63) \<and>
   UnixMilli 10000999999 - 3000 = 7000 \<and>
   map (\<lambda>sd. CreatedAt (snd sd)) (collection around_threshold) = [6999, 7000, 7001] \<and>
   ClearExpiredServers plain_driver around_threshold 10000999999 3000000000 =
     (around_threshold\<lparr>collection := [(2, mk_doc ''US'' 7001 (mk_server ''3'' ''c'' False False))]\<rparr>,
      Inr (2, 1))"
proof -
  have ttl: "sint (3000000000 :: go_int) \<noteq> - (2 ^ 63)" by simp
  have ms: "UnixMilli 10000999999 - 3000 = 7000" by (simp add: UnixMilli_def)
  have stamps: "map (\<lambda>sd. CreatedAt (snd sd)) (collection around_threshold) = [6999, 7000, 7001]"
    by (simp add: around_threshold_def mk_doc_def)
  have "ClearExpiredServers plain_driver around_threshold 10000999999 3000000000 =
     (around_threshold\<lparr>collection := [(2, mk_doc ''US'' 7001 (mk_server ''3'' ''c'' False False))]\<rparr>,
      Inr (2, 1))"
    using ClearExpiredServers_deletes_expired [OF ttl, of plain_driver around_threshold 10000999999]
    by (simp add: expired_def UnixMilli_def around_threshold_def mk_doc_def)
  with ttl ms stamps show ?thesis by blast
qed

end
